theory Spec2Isabelle
  imports Main "HOL-Library.Word" "HOL-Library.List_Lexorder" "HOL-Library.Product_Lexorder"
begin

unbundle bit_operations_syntax

section \<open>Python strings\<close>

text \<open>
  A Python \<^verbatim>\<open>str\<close> is a sequence of Unicode code points and \<^verbatim>\<open>len\<close> counts code
  points, so a string is a list of code points here. ASCII literals of the source are
  written through \<open>ascii\<close>; the Cyrillic literals are spelled out as code points.
\<close>

type_synonym cp = nat
type_synonym ustr = "cp list"

definition ascii :: "string \<Rightarrow> ustr" where
  "ascii s = map of_char s"

subsection \<open>\<^verbatim>\<open>str.splitlines(True)\<close>\<close>

text \<open>
  The line boundaries of \<^verbatim>\<open>str.splitlines\<close>: LF, VT, FF, CR, FS, GS, RS, NEL, LS and PS;
  CR followed by LF is one boundary.
\<close>

definition is_linebreak :: "cp \<Rightarrow> bool" where
  "is_linebreak c \<longleftrightarrow> c \<in> {10, 11, 12, 13, 28, 29, 30, 133, 8232, 8233}"

text \<open>
  \<open>splitlines_from cur s\<close> scans \<open>s\<close> with \<open>cur\<close> the part of the current line already
  read. The terminator stays on its line (\<^verbatim>\<open>keepends=True\<close>); text after the last
  terminator is a line of its own only when it is not empty.
\<close>

fun splitlines_from :: "ustr \<Rightarrow> ustr \<Rightarrow> ustr list" where
  "splitlines_from cur [] = (if cur = [] then [] else [cur])"
| "splitlines_from cur [c] = [cur @ [c]]"
| "splitlines_from cur (c # d # s) =
     (if c = 13 \<and> d = 10 then (cur @ [c, d]) # splitlines_from [] s
      else if is_linebreak c then (cur @ [c]) # splitlines_from [] (d # s)
      else splitlines_from (cur @ [c]) (d # s))"

definition splitlines :: "ustr \<Rightarrow> ustr list" where
  "splitlines text = splitlines_from [] text"

subsection \<open>\<^verbatim>\<open>str.strip()\<close>, \<^verbatim>\<open>str.split()\<close>, \<^verbatim>\<open>str.join\<close>, \<^verbatim>\<open>in\<close>\<close>

text \<open>
  The whitespace of \<^verbatim>\<open>str.strip()\<close> and \<^verbatim>\<open>str.split()\<close> without arguments is the set of
  code points on which \<^verbatim>\<open>str.isspace\<close> holds.
\<close>

definition is_space :: "cp \<Rightarrow> bool" where
  "is_space c \<longleftrightarrow>
     (9 \<le> c \<and> c \<le> 13) \<or> (28 \<le> c \<and> c \<le> 32) \<or> c = 133 \<or> c = 160 \<or> c = 5760 \<or>
     (8192 \<le> c \<and> c \<le> 8202) \<or> c = 8232 \<or> c = 8233 \<or> c = 8239 \<or> c = 8287 \<or> c = 12288"

definition strip :: "ustr \<Rightarrow> ustr" where
  "strip s = rev (dropWhile is_space (rev (dropWhile is_space s)))"

fun split_from :: "ustr \<Rightarrow> ustr \<Rightarrow> ustr list" where
  "split_from cur [] = (if cur = [] then [] else [cur])"
| "split_from cur (c # s) =
     (if is_space c then (if cur = [] then split_from [] s else cur # split_from [] s)
      else split_from (cur @ [c]) s)"

definition split_ws :: "ustr \<Rightarrow> ustr list" where
  "split_ws s = split_from [] s"

fun join :: "ustr \<Rightarrow> ustr list \<Rightarrow> ustr" where
  "join sep [] = []"
| "join sep [x] = x"
| "join sep (x # y # ys) = x @ sep @ join sep (y # ys)"

text \<open>\<open>str_contains sub s\<close> is the test \<^verbatim>\<open>sub in s\<close> on strings.\<close>

fun str_contains :: "ustr \<Rightarrow> ustr \<Rightarrow> bool" where
  "str_contains sub [] = (sub = [])"
| "str_contains sub (c # s) = (take (length sub) (c # s) = sub \<or> str_contains sub s)"

subsection \<open>\<^verbatim>\<open>str(n)\<close> for integers\<close>

fun nat_str :: "nat \<Rightarrow> ustr" where
  "nat_str n = (if n < 10 then [48 + n] else nat_str (n div 10) @ [48 + n mod 10])"

definition int_str :: "int \<Rightarrow> ustr" where
  "int_str i = (if i < 0 then 45 # nat_str (nat (- i)) else nat_str (nat i))"

section \<open>Parsed JSON values\<close>

text \<open>
  What \<^verbatim>\<open>json.loads\<close> returns: \<^verbatim>\<open>None\<close>, a bool, an unbounded int, a float (its 64
  bits), a str, a list or a dict. A dict is the list of its items; a lookup reads the
  first item with the key.
\<close>

datatype json =
    JNull
  | JBool bool
  | JInt int
  | JFloat "64 word"
  | JStr ustr
  | JList "json list"
  | JDict "(ustr \<times> json) list"

text \<open>\<^verbatim>\<open>d.get(k)\<close>: the value, or \<^verbatim>\<open>None\<close> when the key is missing.\<close>

definition dict_get :: "(ustr \<times> json) list \<Rightarrow> ustr \<Rightarrow> json" where
  "dict_get d k = (case map_of d k of None \<Rightarrow> JNull | Some v \<Rightarrow> v)"

text \<open>
  Truthiness, as \<^verbatim>\<open>or\<close> and \<^verbatim>\<open>if\<close> read it. A float is false when it is \<open>0.0\<close> or
  \<open>-0.0\<close>, that is when all bits but the sign are zero.
\<close>

fun truthy :: "json \<Rightarrow> bool" where
  "truthy JNull = False"
| "truthy (JBool b) = b"
| "truthy (JInt i) = (i \<noteq> 0)"
| "truthy (JFloat w) = (w AND 0x7FFFFFFFFFFFFFFF \<noteq> 0)"
| "truthy (JStr s) = (s \<noteq> [])"
| "truthy (JList xs) = (xs \<noteq> [])"
| "truthy (JDict kvs) = (kvs \<noteq> [])"

definition py_or :: "json \<Rightarrow> json \<Rightarrow> json" where
  "py_or a b = (if truthy a then a else b)"

section \<open>The tables of the Python runtime\<close>

text \<open>
  Three parts of the runtime are large tables, taken as given:
  \<^item> \<open>lower_nonascii s i\<close>: what \<^verbatim>\<open>str.lower\<close> writes for the code point at index \<open>i\<close> of
    \<open>s\<close> when it is not ASCII (one to three code points; the string is there for the
    final sigma, the only code point whose lowering reads its neighbours);
  \<^item> \<open>alnum_nonascii c\<close>: whether a non-ASCII code point is alphanumeric, which makes it a
    word character \<^verbatim>\<open>\w\<close> of \<^verbatim>\<open>re\<close>;
  \<^item> \<open>repr_other x\<close>: \<^verbatim>\<open>str(x)\<close> for a float, a list or a dict.
  Every definition below that reads one of them takes the tables as its first argument,
  and every theorem holds for all tables.
\<close>

record runtime =
  lower_nonascii :: "ustr \<Rightarrow> nat \<Rightarrow> ustr"
  alnum_nonascii :: "cp \<Rightarrow> bool"
  repr_other :: "json \<Rightarrow> ustr"

definition lower_at :: "runtime \<Rightarrow> ustr \<Rightarrow> nat \<Rightarrow> ustr" where
  "lower_at E s i =
     (let c = s ! i in
      if c < 128 then [if 65 \<le> c \<and> c \<le> 90 then c + 32 else c]
      else lower_nonascii E s i)"

definition py_lower :: "runtime \<Rightarrow> ustr \<Rightarrow> ustr" where
  "py_lower E s = concat (map (lower_at E s) [0..<length s])"

definition py_str :: "runtime \<Rightarrow> json \<Rightarrow> ustr" where
  "py_str E x =
     (case x of
        JNull \<Rightarrow> ascii ''None''
      | JBool b \<Rightarrow> (if b then ascii ''True'' else ascii ''False'')
      | JInt i \<Rightarrow> int_str i
      | JStr s \<Rightarrow> s
      | _ \<Rightarrow> repr_other E x)"

section \<open>The helpers of the extractors\<close>

definition safe_str :: "runtime \<Rightarrow> json \<Rightarrow> ustr" where
  "safe_str E x = (case x of JNull \<Rightarrow> [] | _ \<Rightarrow> strip (py_str E x))"

text \<open>
  \<^verbatim>\<open>_split_name\<close>. A stripped non-empty string has a non-whitespace code point, so
  \<^verbatim>\<open>split()\<close> gives at least one part there and \<^verbatim>\<open>parts[0]\<close> cannot raise; the case of
  no parts is listed for totality only (lemma \<open>split_ws_strip_nonempty\<close>).
\<close>

definition split_name :: "runtime \<Rightarrow> ustr \<Rightarrow> ustr \<times> ustr" where
  "split_name E full_name0 =
     (let full_name = safe_str E (JStr full_name0) in
      if full_name = [] then ([], [])
      else case split_ws full_name of
             [] \<Rightarrow> ([], [])
           | [p] \<Rightarrow> (p, [])
           | p # ps \<Rightarrow> (p, join (ascii '' '') ps))"

definition deleted_ru :: ustr where
  "deleted_ru = [1091, 1076, 1072, 1083]"

definition account_ru :: ustr where
  "account_ru = [1072, 1082, 1082, 1072, 1091, 1085, 1090]"

text \<open>\<^verbatim>\<open>_is_deleted_account\<close>; the second argument is not read by the source.\<close>

definition is_deleted_account :: "runtime \<Rightarrow> ustr \<Rightarrow> ustr \<Rightarrow> bool" where
  "is_deleted_account E name user_id =
     (let n = py_lower E (safe_str E (JStr name)) in
      if str_contains (ascii ''deleted account'') n then True
      else if str_contains deleted_ru n \<and> str_contains account_ru n then True
      else if n = ascii ''deleted'' then True
      else False)"

definition make_user_key :: "runtime \<Rightarrow> ustr \<Rightarrow> ustr \<Rightarrow> ustr \<Rightarrow> ustr \<Rightarrow> ustr" where
  "make_user_key E user_id username first_name last_name =
     (if user_id \<noteq> [] then ascii ''id:'' @ user_id
      else if username \<noteq> [] then ascii ''u:'' @ py_lower E username
      else ascii ''n:'' @ py_lower E first_name @ ascii ''|'' @ py_lower E last_name)"

section \<open>The mention scanner\<close>

text \<open>
  \<^verbatim>\<open>MENTION_RE = re.compile(r"(?<!\w)@([A-Za-z0-9_]{5,32})")\<close>.
  \<open>is_word\<close> is \<^verbatim>\<open>\w\<close> on a \<^verbatim>\<open>str\<close> pattern: alphanumeric or underscore.
  \<open>is_mention_char\<close> is the class \<^verbatim>\<open>[A-Za-z0-9_]\<close>.
\<close>

definition is_mention_char :: "cp \<Rightarrow> bool" where
  "is_mention_char c \<longleftrightarrow>
     (65 \<le> c \<and> c \<le> 90) \<or> (97 \<le> c \<and> c \<le> 122) \<or> (48 \<le> c \<and> c \<le> 57) \<or> c = 95"

definition is_word :: "runtime \<Rightarrow> cp \<Rightarrow> bool" where
  "is_word E c = (if c < 128 then is_mention_char c else alnum_nonascii E c)"

text \<open>
  The group of a match that starts at an \<^verbatim>\<open>@\<close> followed by \<open>s\<close>: the quantifier is greedy
  and nothing follows it in the pattern, so it takes the longest run of class characters,
  at most 32.
\<close>

definition mention_group :: "ustr \<Rightarrow> ustr" where
  "mention_group s = takeWhile is_mention_char (take 32 s)"

text \<open>
  \<^verbatim>\<open>MENTION_RE.finditer\<close>, as the list of the groups of its matches. \<open>prev\<close> is the code
  point before the position, which the lookbehind reads (\<open>None\<close> at the start of the
  text). After a match the scan goes on behind it; elsewhere it moves one code point.
\<close>

function finditer_from :: "runtime \<Rightarrow> cp option \<Rightarrow> ustr \<Rightarrow> ustr list" where
  "finditer_from E prev [] = []"
| "finditer_from E prev (c # s) =
     (if c = 64 \<and> (case prev of None \<Rightarrow> True | Some p \<Rightarrow> \<not> is_word E p)
         \<and> 5 \<le> length (mention_group s)
      then mention_group s
             # finditer_from E (Some (last (mention_group s))) (drop (length (mention_group s)) s)
      else finditer_from E (Some c) s)"
  by pat_completeness auto
termination
  by (relation "measure (\<lambda>(E, prev, s). length s)") auto

definition extract_mentions_from_text :: "runtime \<Rightarrow> ustr option \<Rightarrow> ustr set" where
  "extract_mentions_from_text E text =
     set (map (py_lower E) (finditer_from E None (case text of None \<Rightarrow> [] | Some t \<Rightarrow> t)))"

section \<open>Participants and the extractors\<close>

text \<open>
  A participant is the dict with the five string fields that both extractors write. A
  participant map is a Python dict, which keeps insertion order: the list of its items,
  keys distinct. \<open>dict_set\<close> is \<^verbatim>\<open>d[k] = v\<close> (a key already there keeps its place) and
  \<open>dict_update\<close> is \<^verbatim>\<open>d.update(e)\<close>.
\<close>

record participant =
  export_date :: ustr
  username :: ustr
  first_name :: ustr
  last_name :: ustr
  bio :: ustr

type_synonym participants = "(ustr \<times> participant) list"

fun dict_set :: "('k \<times> 'v) list \<Rightarrow> 'k \<Rightarrow> 'v \<Rightarrow> ('k \<times> 'v) list" where
  "dict_set [] k v = [(k, v)]"
| "dict_set ((k', v') # d) k v = (if k' = k then (k, v) # d else (k', v') # dict_set d k v)"

definition dict_update :: "('k \<times> 'v) list \<Rightarrow> ('k \<times> 'v) list \<Rightarrow> ('k \<times> 'v) list" where
  "dict_update d e = foldl (\<lambda>acc (k, v). dict_set acc k v) d e"

text \<open>
  The text of a message whose \<^verbatim>\<open>text\<close> field is a list: the strings and the stripped
  \<^verbatim>\<open>text\<close> of the dicts, in order; any other item adds nothing.
\<close>

definition join_segments :: "runtime \<Rightarrow> json list \<Rightarrow> ustr" where
  "join_segments E items =
     foldl (\<lambda>joined item.
              case item of
                JStr t \<Rightarrow> joined @ t
              | JDict kv \<Rightarrow> joined @ safe_str E (dict_get kv (ascii ''text''))
              | _ \<Rightarrow> joined) [] items"

definition message_mentions :: "runtime \<Rightarrow> (ustr \<times> json) list \<Rightarrow> ustr set" where
  "message_mentions E m =
     (case dict_get m (ascii ''text'') of
        JStr t \<Rightarrow> extract_mentions_from_text E (Some t)
      | JList items \<Rightarrow> extract_mentions_from_text E (Some (join_segments E items))
      | _ \<Rightarrow> {})"

text \<open>The resolved display name, identifier and username of a message dict.\<close>

definition from_name_of :: "runtime \<Rightarrow> (ustr \<times> json) list \<Rightarrow> ustr" where
  "from_name_of E m =
     safe_str E (py_or (py_or (py_or (dict_get m (ascii ''from''))
                                     (dict_get m (ascii ''actor'')))
                              (dict_get m (ascii ''sender'')))
                       (JStr []))"

definition from_id_of :: "runtime \<Rightarrow> (ustr \<times> json) list \<Rightarrow> ustr" where
  "from_id_of E m =
     safe_str E (py_or (py_or (py_or (dict_get m (ascii ''from_id''))
                                     (dict_get m (ascii ''actor_id'')))
                              (dict_get m (ascii ''sender_id'')))
                       (JStr []))"

definition username_of :: "runtime \<Rightarrow> (ustr \<times> json) list \<Rightarrow> ustr" where
  "username_of E m =
     safe_str E (py_or (py_or (dict_get m (ascii ''username''))
                              (dict_get m (ascii ''from_username'')))
                       (JStr []))"

text \<open>
  The first and last name of a message dict: the explicit fields, or the split display
  name when both are empty.
\<close>

definition names_of :: "runtime \<Rightarrow> (ustr \<times> json) list \<Rightarrow> ustr \<times> ustr" where
  "names_of E m =
     (let from_name = from_name_of E m;
          first_name = safe_str E (dict_get m (ascii ''first_name''));
          last_name = safe_str E (dict_get m (ascii ''last_name''))
      in if first_name = [] \<and> last_name = [] \<and> from_name \<noteq> []
         then (case split_name E from_name of (fn, ln) \<Rightarrow>
                 (if first_name \<noteq> [] then first_name else fn,
                  if last_name \<noteq> [] then last_name else ln))
         else (first_name, last_name))"

text \<open>
  The body of the loop of \<^verbatim>\<open>extract_from_json\<close> over the messages, on the state
  \<open>(participants, mentions)\<close>. A message that is not a dict is skipped whole; the
  mentions of a dict are added before any of the two \<^verbatim>\<open>continue\<close> tests.
\<close>

definition process_message ::
  "runtime \<Rightarrow> ustr \<Rightarrow> participants \<times> ustr set \<Rightarrow> json \<Rightarrow> participants \<times> ustr set" where
  "process_message E date st msg =
     (case st of (parts, mentions) \<Rightarrow>
      case msg of
        JDict m \<Rightarrow>
          (let mentions' = mentions \<union> message_mentions E m;
               from_name = from_name_of E m;
               from_id = from_id_of E m;
               uname = username_of E m;
               fl = names_of E m
           in if \<not> (from_id \<noteq> [] \<or> uname \<noteq> [] \<or> fst fl \<noteq> [] \<or> snd fl \<noteq> [] \<or> from_name \<noteq> [])
              then (parts, mentions')
              else if is_deleted_account E from_name from_id
              then (parts, mentions')
              else (dict_set parts (make_user_key E from_id uname (fst fl) (snd fl))
                      \<lparr>export_date = date, username = uname, first_name = fst fl,
                       last_name = snd fl, bio = ascii ''N/A''\<rparr>,
                    mentions'))
      | _ \<Rightarrow> (parts, mentions))"

text \<open>
  \<^verbatim>\<open>extract_from_json\<close> on a parsed document that is a dict. \<open>now\<close> is the reading of the
  clock, \<^verbatim>\<open>datetime.now(timezone.utc).isoformat()\<close>, used when the document has no
  export date.
\<close>

definition extract_from_json ::
  "runtime \<Rightarrow> ustr \<Rightarrow> (ustr \<times> json) list \<Rightarrow> ustr \<times> participants \<times> ustr set" where
  "extract_from_json E now data =
     (let d = safe_str E (dict_get data (ascii ''export_date''));
          date = (if d \<noteq> [] then d else now)
      in case dict_get data (ascii ''messages'') of
           JList messages \<Rightarrow>
             (case foldl (process_message E date) ([], {}) messages of
                (parts, mentions) \<Rightarrow> (date, parts, mentions))
         | _ \<Rightarrow> (date, [], {}))"

text \<open>
  \<^verbatim>\<open>extract_from_html\<close>, on what the parser hands to it: the texts of the elements
  selected by \<^verbatim>\<open>.from_name\<close> and of those selected by \<^verbatim>\<open>.text\<close>, in document order.
\<close>

definition html_name_step :: "runtime \<Rightarrow> ustr \<Rightarrow> participants \<Rightarrow> ustr \<Rightarrow> participants" where
  "html_name_step E date parts tag_text =
     (let from_name = safe_str E (JStr tag_text) in
      if from_name = [] then parts
      else if is_deleted_account E from_name [] then parts
      else case split_name E from_name of (fn, ln) \<Rightarrow>
             dict_set parts (make_user_key E [] [] fn ln)
               \<lparr>export_date = date, username = [], first_name = fn, last_name = ln,
                bio = ascii ''N/A''\<rparr>)"

definition extract_from_html ::
  "runtime \<Rightarrow> ustr \<Rightarrow> ustr list \<Rightarrow> ustr list \<Rightarrow> ustr \<times> participants \<times> ustr set" where
  "extract_from_html E now name_tags text_tags =
     (now,
      foldl (html_name_step E now) [] name_tags,
      foldl (\<lambda>mentions t. mentions \<union> extract_mentions_from_text E (Some (safe_str E (JStr t))))
        {} text_tags)"

section \<open>Chunking of the inline text\<close>

definition TELEGRAM_MSG_LIMIT :: int where
  "TELEGRAM_MSG_LIMIT = 4096"

text \<open>
  The body of the loop of \<^verbatim>\<open>chunk_text\<close> on the state \<open>(chunks, cur)\<close>:
  \<^verbatim>\<open>
  if len(cur) + len(line) > limit - 50:
      chunks.append(cur)
      cur = ""
  cur += line
  \<close>
\<close>

definition chunk_step :: "int \<Rightarrow> ustr list \<times> ustr \<Rightarrow> ustr \<Rightarrow> ustr list \<times> ustr" where
  "chunk_step limit st line =
     (case st of (chunks, cur) \<Rightarrow>
        if int (length cur) + int (length line) > limit - 50
        then (chunks @ [cur], line)
        else (chunks, cur @ line))"

definition chunk_text :: "ustr \<Rightarrow> int \<Rightarrow> ustr list" where
  "chunk_text text limit =
     (case foldl (chunk_step limit) ([], []) (splitlines text) of
        (chunks, cur) \<Rightarrow> if cur \<noteq> [] then chunks @ [cur] else chunks)"

text \<open>
  The same loop on lines instead of characters: \<open>chunk_groups\<close> keeps, for each chunk,
  the list of the lines that went into it. It is used to say that no line is cut.
\<close>

definition group_step ::
  "int \<Rightarrow> ustr list list \<times> ustr list \<Rightarrow> ustr \<Rightarrow> ustr list list \<times> ustr list" where
  "group_step limit st line =
     (case st of (groups, g) \<Rightarrow>
        if int (length (concat g)) + int (length line) > limit - 50
        then (groups @ [g], [line])
        else (groups, g @ [line]))"

definition chunk_groups :: "ustr \<Rightarrow> int \<Rightarrow> ustr list list" where
  "chunk_groups text limit =
     (case foldl (group_step limit) ([], []) (splitlines text) of
        (groups, g) \<Rightarrow> if g \<noteq> [] then groups @ [g] else groups)"

section \<open>The handler of \<^verbatim>\<open>/done\<close>\<close>

definition LIST_THRESHOLD :: nat where
  "LIST_THRESHOLD = 50"

text \<open>
  The texts of the replies, in Russian in the source, as code points. The replies with
  numbers in them are cut where the numbers go.
\<close>

definition no_name_text :: ustr where
  "no_name_text =
    [40, 1073, 1077, 1079, 32, 1080, 1084, 1077, 1085, 1080, 41]"

definition msg_no_files :: ustr where
  "msg_no_files =
    [1060, 1072, 1081, 1083, 1099, 32, 1085, 1077, 32, 1087, 1086, 1083, 1091, 1095, 1077,
     1085, 1099, 46, 32, 1055, 1088, 1080, 1096, 1083, 1080, 32, 1101, 1082, 1089, 1087,
     1086, 1088, 1090, 32, 40, 74, 83, 79, 78, 47, 72, 84, 77, 76, 41, 32, 1080, 32, 1087,
     1086, 1090, 1086, 1084, 32, 47, 100, 111, 110, 101, 46]"

definition msg_none_1 :: ustr where
  "msg_none_1 =
    [1043, 1086, 1090, 1086, 1074, 1086, 46, 32, 1060, 1072, 1081, 1083, 1086, 1074, 32,
     1086, 1073, 1088, 1072, 1073, 1086, 1090, 1072, 1085, 1086, 58, 32]"

definition msg_errors :: ustr where
  "msg_errors =
    [44, 32, 1086, 1096, 1080, 1073, 1086, 1082, 58, 32]"

definition msg_none_2 :: ustr where
  "msg_none_2 =
    [46, 10, 1053, 1077, 32, 1085, 1072, 1096, 1105, 1083, 32, 1091, 1095, 1072, 1089,
     1090, 1085, 1080, 1082, 1086, 1074, 32, 40, 1074, 1086, 1079, 1084, 1086, 1078, 1085,
     1086, 44, 32, 1092, 1086, 1088, 1084, 1072, 1090, 32, 1101, 1082, 1089, 1087, 1086,
     1088, 1090, 1072, 32, 1086, 1090, 1083, 1080, 1095, 1072, 1077, 1090, 1089, 1103, 41,
     46]"

definition msg_done_1 :: ustr where
  "msg_done_1 =
    [1043, 1086, 1090, 1086, 1074, 1086, 46, 32, 1060, 1072, 1081, 1083, 1086, 1074, 58, 32]"

definition msg_done_2 :: ustr where
  "msg_done_2 =
    [46, 10, 1059, 1085, 1080, 1082, 1072, 1083, 1100, 1085, 1099, 1093, 32, 1091, 1095,
     1072, 1089, 1090, 1085, 1080, 1082, 1086, 1074, 32, 40, 1087, 1080, 1089, 1072, 1083,
     1080, 32, 1089, 1086, 1086, 1073, 1097, 1077, 1085, 1080, 1103, 41, 58, 32]"

definition msg_done_3 :: ustr where
  "msg_done_3 =
    [10, 1059, 1085, 1080, 1082, 1072, 1083, 1100, 1085, 1099, 1093, 32, 64, 1091, 1087,
     1086, 1084, 1080, 1085, 1072, 1085, 1080, 1081, 32, 1074, 32, 1090, 1077, 1082, 1089,
     1090, 1077, 32, 40, 1085, 1077, 32, 1091, 1095, 1072, 1089, 1090, 1085, 1080, 1082,
     1080, 41, 58, 32]"

definition list_header :: ustr where
  "list_header =
    [1057, 1087, 1080, 1089, 1086, 1082, 32, 1091, 1095, 1072, 1089, 1090, 1085, 1080,
     1082, 1086, 1074, 32, 40, 117, 115, 101, 114, 110, 97, 109, 101, 41, 58]"

definition list_no_usernames :: ustr where
  "list_no_usernames =
    [8212, 32, 40, 1074, 32, 1101, 1082, 1089, 1087, 1086, 1088, 1090, 1077, 32, 1085,
     1077, 32, 1085, 1072, 1081, 1076, 1077, 1085, 1086, 32, 1085, 1080, 32, 1086, 1076,
     1085, 1086, 1075, 1086, 32, 117, 115, 101, 114, 110, 97, 109, 101, 41]"

definition list_header_names :: ustr where
  "list_header_names =
    [10, 1059, 1095, 1072, 1089, 1090, 1085, 1080, 1082, 1080, 32, 1073, 1077, 1079, 32,
     117, 115, 101, 114, 110, 97, 109, 101, 32, 40, 1087, 1086, 32, 1080, 1084, 1077, 1085,
     1080, 32, 1080, 1079, 32, 1101, 1082, 1089, 1087, 1086, 1088, 1090, 1072, 41, 58]"

definition xlsx_caption :: ustr where
  "xlsx_caption =
    [69, 120, 99, 101, 108, 32, 1089, 1086, 32, 1089, 1087, 1080, 1089, 1082, 1086, 1084,
     32, 1091, 1095, 1072, 1089, 1090, 1085, 1080, 1082, 1086, 1074, 32, 40, 101, 120, 112,
     111, 114, 116, 95, 100, 97, 116, 101, 44, 32, 117, 115, 101, 114, 110, 97, 109, 101,
     44, 32, 102, 105, 114, 115, 116, 95, 110, 97, 109, 101, 44, 32, 108, 97, 115, 116, 95,
     110, 97, 109, 101, 44, 32, 98, 105, 111, 41, 46]"

subsection \<open>Merging the files\<close>

text \<open>
  An uploaded file, as the parsers leave it. A name ending in \<^verbatim>\<open>.json\<close> goes through
  \<^verbatim>\<open>json.loads\<close>, which raises or returns a value; any other name goes to the HTML
  extractor. With each file comes the reading of the clock taken while it is processed.
\<close>

datatype upload =
    BadJson
  | JsonFile json
  | HtmlFile "ustr list" "ustr list"

datatype error = JSONDecodeError | AttributeError

text \<open>
  The \<^verbatim>\<open>try\<close> block of the loop. \<^verbatim>\<open>extract_from_json\<close> calls \<^verbatim>\<open>data.get\<close>, which a
  parsed value other than a dict does not have.
\<close>

definition process_file ::
  "runtime \<Rightarrow> upload \<times> ustr \<Rightarrow> error + ustr \<times> participants \<times> ustr set" where
  "process_file E f =
     (case f of (content, now) \<Rightarrow>
      case content of
        BadJson \<Rightarrow> Inl JSONDecodeError
      | JsonFile (JDict data) \<Rightarrow> Inr (extract_from_json E now data)
      | JsonFile _ \<Rightarrow> Inl AttributeError
      | HtmlFile name_tags text_tags \<Rightarrow> Inr (extract_from_html E now name_tags text_tags))"

record aggregate =
  all_participants :: participants
  all_mentions :: "ustr set"
  processed :: nat
  failed :: nat

definition merge_step ::
  "aggregate \<Rightarrow> error + ustr \<times> participants \<times> ustr set \<Rightarrow> aggregate" where
  "merge_step agg r =
     (case r of
        Inr (date, parts, mentions) \<Rightarrow>
          agg\<lparr>all_participants := dict_update (all_participants agg) parts,
              all_mentions := all_mentions agg \<union> mentions,
              processed := processed agg + 1\<rparr>
      | Inl e \<Rightarrow> agg\<lparr>failed := failed agg + 1\<rparr>)"

definition merge :: "(error + ustr \<times> participants \<times> ustr set) list \<Rightarrow> aggregate" where
  "merge results =
     foldl merge_step \<lparr>all_participants = [], all_mentions = {}, processed = 0, failed = 0\<rparr>
       results"

subsection \<open>Rendering\<close>

text \<open>
  The sheet that \<^verbatim>\<open>build_excel_bytes\<close> fills before the workbook is serialised: its
  title and its rows of cells, the header row first.
\<close>

record sheet =
  title :: ustr
  cells :: "ustr list list"

definition build_excel_bytes :: "participant list \<Rightarrow> sheet" where
  "build_excel_bytes rows =
     \<lparr>title = ascii ''users'',
      cells =
        [ascii ''export_date'', ascii ''username'', ascii ''first_name'', ascii ''last_name'',
         ascii ''bio'']
        # map (\<lambda>r. [export_date r, username r, first_name r, last_name r, bio r]) rows\<rparr>"

definition sort_rows :: "runtime \<Rightarrow> participant list \<Rightarrow> participant list" where
  "sort_rows E rows =
     sort_key (\<lambda>r. (py_lower E (username r), py_lower E (first_name r), py_lower E (last_name r)))
       rows"

definition with_username :: "runtime \<Rightarrow> participant list \<Rightarrow> ustr list" where
  "with_username E rows =
     map (\<lambda>r. 64 # safe_str E (JStr (username r)))
       (filter (\<lambda>r. safe_str E (JStr (username r)) \<noteq> []) rows)"

definition display_name :: "runtime \<Rightarrow> participant \<Rightarrow> ustr" where
  "display_name E r =
     (let fn = safe_str E (JStr (first_name r));
          ln = safe_str E (JStr (last_name r));
          n = join (ascii '' '') (filter (\<lambda>p. p \<noteq> []) [fn, ln])
      in if n \<noteq> [] then n else no_name_text)"

definition no_username :: "runtime \<Rightarrow> participant list \<Rightarrow> ustr list" where
  "no_username E rows =
     map (display_name E) (filter (\<lambda>r. safe_str E (JStr (username r)) = []) rows)"

definition inline_text :: "runtime \<Rightarrow> participant list \<Rightarrow> ustr" where
  "inline_text E rows =
     join (ascii ''\<newline>'')
       ([list_header]
        @ (if with_username E rows \<noteq> []
           then map (\<lambda>(i, u). nat_str (i + 1) @ ascii ''. '' @ u)
                  (enumerate 0 (with_username E rows))
           else [list_no_usernames])
        @ (if no_username E rows \<noteq> []
           then list_header_names # map (\<lambda>n. ascii ''- '' @ n) (no_username E rows)
           else []))"

datatype reply =
    ReplyText ustr
  | ReplyDocument sheet ustr ustr

text \<open>
  The two texts with numbers in them: the notice sent when no participant was found, and
  the summary sent before the list or the sheet.
\<close>

definition not_found_text :: "aggregate \<Rightarrow> ustr" where
  "not_found_text agg =
     msg_none_1 @ nat_str (processed agg) @ msg_errors @ nat_str (failed agg) @ msg_none_2"

definition summary_text :: "aggregate \<Rightarrow> ustr" where
  "summary_text agg =
     msg_done_1 @ nat_str (processed agg) @ msg_errors @ nat_str (failed agg) @ msg_done_2
     @ nat_str (length (all_participants agg)) @ msg_done_3 @ nat_str (card (all_mentions agg))"

text \<open>
  The second half of \<^verbatim>\<open>done\<close>, from \<^verbatim>\<open>total = len(all_participants)\<close> on: the replies
  sent for an aggregate, in order. The document reply carries the sheet, the file name and
  the caption.
\<close>

definition present :: "runtime \<Rightarrow> aggregate \<Rightarrow> reply list" where
  "present E agg =
     (let total = length (all_participants agg) in
      if total = 0 then [ReplyText (not_found_text agg)]
      else
        let rows = sort_rows E (map snd (all_participants agg)) in
        if total < LIST_THRESHOLD
        then ReplyText (summary_text agg)
               # map ReplyText (chunk_text (inline_text E rows) TELEGRAM_MSG_LIMIT)
        else [ReplyText (summary_text agg),
              ReplyDocument (build_excel_bytes rows) (ascii ''users.xlsx'') xlsx_caption])"

text \<open>
  \<^verbatim>\<open>done\<close>: the replies sent and the file list left in the user data. Without files
  the handler answers and returns; with files it merges them, empties the list and
  presents the aggregate.
\<close>

definition done_handler ::
  "runtime \<Rightarrow> (upload \<times> ustr) list \<Rightarrow> reply list \<times> (upload \<times> ustr) list" where
  "done_handler E files =
     (if files = [] then ([ReplyText msg_no_files], files)
      else (present E (merge (map (process_file E) files)), []))"

section \<open>Notions of the specification\<close>

text \<open>
  Two usernames differ only in case when they lower to the same string. Lowering never
  empties a string, so both are empty or neither is; this is said outright, since the
  lowering of the non-ASCII code points is a parameter here.
\<close>

definition same_ignoring_case :: "runtime \<Rightarrow> ustr \<Rightarrow> ustr \<Rightarrow> bool" where
  "same_ignoring_case E a b \<longleftrightarrow> (a = [] \<longleftrightarrow> b = []) \<and> py_lower E a = py_lower E b"

text \<open>
  The deleted-account heuristic in the specification's words, on one string: equal to
  \<^verbatim>\<open>deleted\<close> whatever the case, or containing \<^verbatim>\<open>deleted account\<close> whatever the case, or
  containing both Russian tokens whatever the case and the order.
\<close>

definition matches_deleted_heuristic :: "runtime \<Rightarrow> ustr \<Rightarrow> bool" where
  "matches_deleted_heuristic E s \<longleftrightarrow>
     py_lower E s = ascii ''deleted'' \<or>
     str_contains (ascii ''deleted account'') (py_lower E s) \<or>
     (str_contains deleted_ru (py_lower E s) \<and> str_contains account_ru (py_lower E s))"

text \<open>
  The mentions of a text in the specification's words: the lowered tokens \<open>t\<close> of 5 to 32
  class characters that stand in the text behind an \<^verbatim>\<open>@\<close> not preceded by a word
  character.
\<close>

definition mentions_as_specified :: "runtime \<Rightarrow> ustr \<Rightarrow> ustr set" where
  "mentions_as_specified E text =
     {py_lower E t | t pre post.
        text = pre @ 64 # t @ post \<and> (pre = [] \<or> \<not> is_word E (last pre)) \<and>
        5 \<le> length t \<and> length t \<le> 32 \<and> list_all is_mention_char t}"

text \<open>
  For the proofs about the scanner: the lookbehind as a test on the code point before the
  position, and the code point before the position that follows \<open>pre\<close>.
\<close>

definition lookbehind_ok :: "runtime \<Rightarrow> cp option \<Rightarrow> bool" where
  "lookbehind_ok E prev = (case prev of None \<Rightarrow> True | Some p \<Rightarrow> \<not> is_word E p)"

definition prev_of :: "cp option \<Rightarrow> ustr \<Rightarrow> cp option" where
  "prev_of prev pre = (if pre = [] then prev else Some (last pre))"

section \<open>Tables for the examples\<close>

text \<open>
  The examples are evaluated with the tables cut down to the basic Cyrillic block:
  the capital letters are lowered, the letters are alphanumeric, and \<^verbatim>\<open>str\<close> of a float,
  list or dict is not needed. Only the closed example theorems use it.
\<close>

definition sample_runtime :: runtime where
  "sample_runtime =
     \<lparr>lower_nonascii =
        (\<lambda>s i. let c = s ! i in
                if 1040 \<le> c \<and> c \<le> 1071 then [c + 32]
                else if 1024 \<le> c \<and> c \<le> 1039 then [c + 80]
                else [c]),
      alnum_nonascii = (\<lambda>c. 1024 \<le> c \<and> c \<le> 1119),
      repr_other = (\<lambda>x. [])\<rparr>"

text \<open>
  Three aggregates for the examples: the merge of one file without messages, one
  participant with a username, and fifty participants without usernames.
\<close>

definition no_participants :: aggregate where
  "no_participants = merge [Inr ([], [], {})]"

definition one_participant :: aggregate where
  "one_participant =
     \<lparr>all_participants =
        [(ascii ''u:bob'',
          \<lparr>export_date = [], username = ascii ''bob'', first_name = [], last_name = [],
           bio = ascii ''N/A''\<rparr>)],
      all_mentions = {}, processed = 1, failed = 0\<rparr>"

definition fifty_participants :: aggregate where
  "fifty_participants =
     \<lparr>all_participants =
        map (\<lambda>i. (ascii ''id:'' @ nat_str i,
                  \<lparr>export_date = [], username = [], first_name = nat_str i, last_name = [],
                   bio = ascii ''N/A''\<rparr>)) [0..<50],
      all_mentions = {}, processed = 1, failed = 0\<rparr>"

section \<open>Properties of the chunking\<close>

lemma splitlines_from_concat: "concat (splitlines_from cur s) = cur @ s"
  by (induction cur s rule: splitlines_from.induct) auto

lemma splitlines_from_nonempty: "l \<in> set (splitlines_from cur s) \<Longrightarrow> l \<noteq> []"
  by (induction cur s rule: splitlines_from.induct) (auto split: if_splits)

lemma concat_splitlines: "concat (splitlines text) = text"
  by (simp add: splitlines_def splitlines_from_concat)

lemma splitlines_nonempty: "[] \<notin> set (splitlines text)"
  using splitlines_from_nonempty by (auto simp: splitlines_def)

lemma splitlines_from_no_break:
  "\<forall>c \<in> set s. \<not> is_linebreak c \<Longrightarrow> splitlines_from cur s = (if cur @ s = [] then [] else [cur @ s])"
  by (induction cur s rule: splitlines_from.induct) (auto simp: is_linebreak_def)

lemma chunk_step_groups:
  "chunk_step limit (map concat groups, concat g) line =
     (case group_step limit (groups, g) line of (groups', g') \<Rightarrow> (map concat groups', concat g'))"
  by (simp add: chunk_step_def group_step_def)

lemma foldl_chunk_step_groups:
  "foldl (chunk_step limit) (map concat groups, concat g) ls =
     (case foldl (group_step limit) (groups, g) ls of (groups', g') \<Rightarrow> (map concat groups', concat g'))"
proof (induction ls arbitrary: groups g)
  case Nil
  show ?case by simp
next
  case (Cons l ls)
  obtain groups1 g1 where s: "group_step limit (groups, g) l = (groups1, g1)"
    by (cases "group_step limit (groups, g) l")
  show ?case using Cons.IH [of groups1 g1] chunk_step_groups [of limit groups g l]
    by (simp add: s)
qed

lemma foldl_group_step_concat:
  "foldl (group_step limit) (groups, g) ls = (groups', g') \<Longrightarrow>
     concat (groups' @ [g']) = concat (groups @ [g]) @ ls"
proof (induction ls arbitrary: groups g)
  case Nil
  then show ?case by simp
next
  case (Cons l ls)
  obtain groups1 g1 where s: "group_step limit (groups, g) l = (groups1, g1)"
    by (cases "group_step limit (groups, g) l")
  have "concat (groups1 @ [g1]) = concat (groups @ [g]) @ [l]"
    using s by (auto simp: group_step_def split: if_splits)
  with Cons.IH [of groups1 g1] Cons.prems s show ?case by simp
qed

lemma foldl_group_step_lines:
  "foldl (group_step limit) (groups, g) ls = (groups', g') \<Longrightarrow>
     set g' \<subseteq> set g \<union> set ls"
proof (induction ls arbitrary: groups g)
  case Nil
  then show ?case by simp
next
  case (Cons l ls)
  obtain groups1 g1 where s: "group_step limit (groups, g) l = (groups1, g1)"
    by (cases "group_step limit (groups, g) l")
  have "set g1 \<subseteq> set g \<union> {l}"
    using s by (auto simp: group_step_def split: if_splits)
  with Cons.IH [of groups1 g1] Cons.prems s show ?case by auto
qed

lemma chunk_text_groups: "chunk_text text limit = map concat (chunk_groups text limit)"
proof -
  obtain groups g where f: "foldl (group_step limit) ([], []) (splitlines text) = (groups, g)"
    by (cases "foldl (group_step limit) ([], []) (splitlines text)")
  have c: "foldl (chunk_step limit) ([], []) (splitlines text) = (map concat groups, concat g)"
    using foldl_chunk_step_groups [of limit "[]" "[]" "splitlines text"] f by simp
  have "set g \<subseteq> set (splitlines text)"
    using foldl_group_step_lines [OF f] by simp
  then have "[] \<notin> set g" using splitlines_nonempty by auto
  then have "concat g = [] \<longleftrightarrow> g = []" by (cases g) auto
  then show ?thesis by (simp add: chunk_text_def chunk_groups_def c f)
qed

lemma concat_chunk_groups: "concat (chunk_groups text limit) = splitlines text"
proof -
  obtain groups g where f: "foldl (group_step limit) ([], []) (splitlines text) = (groups, g)"
    by (cases "foldl (group_step limit) ([], []) (splitlines text)")
  from foldl_group_step_concat [OF f] show ?thesis
    by (auto simp: chunk_groups_def f)
qed

lemma concat_map_concat_eq: "concat (map concat xss) = concat (concat xss)"
  by (induction xss) auto

text \<open>
  C7. Chunking cuts at line boundaries only and loses nothing: the chunks are the
  concatenations of consecutive groups of the lines of the text (the lines that
  \<^verbatim>\<open>splitlines(True)\<close> gives, terminators kept), so every line lies whole in one chunk,
  however long it is; and the chunks concatenated in order are the text.
\<close>

theorem chunk_text_roundtrip:
  "concat (chunk_text text limit) = text \<and>
   (\<exists>groups. concat groups = splitlines text \<and> chunk_text text limit = map concat groups)"
proof
  have "concat (chunk_text text limit) = concat (concat (chunk_groups text limit))"
    by (simp add: chunk_text_groups concat_map_concat_eq)
  then show "concat (chunk_text text limit) = text"
    by (simp add: concat_chunk_groups concat_splitlines)
  show "\<exists>groups. concat groups = splitlines text \<and> chunk_text text limit = map concat groups"
    using concat_chunk_groups chunk_text_groups by blast
qed


lemma chunk_step_pair:
  "chunk_step limit (chunks, cur) line =
     (if int (length cur) + int (length line) > limit - 50
      then (chunks @ [cur], line) else (chunks, cur @ line))"
  by (simp add: chunk_step_def)

lemma foldl_chunk_step_bound:
  assumes "foldl (chunk_step limit) (chunks, cur) ls = (chunks', cur')"
    and "\<forall>c \<in> set chunks. int (length c) \<le> limit - 50 \<or> c \<in> L"
    and "int (length cur) \<le> limit - 50 \<or> cur \<in> L"
    and "set ls \<subseteq> L"
  shows "(\<forall>c \<in> set chunks'. int (length c) \<le> limit - 50 \<or> c \<in> L) \<and>
         (int (length cur') \<le> limit - 50 \<or> cur' \<in> L)"
  using assms
proof (induction ls arbitrary: chunks cur)
  case Nil
  then show ?case by simp
next
  case (Cons l ls)
  show ?case
  proof (cases "int (length cur) + int (length l) > limit - 50")
    case True
    then have "foldl (chunk_step limit) (chunks @ [cur], l) ls = (chunks', cur')"
      using Cons.prems(1) by (simp add: chunk_step_pair)
    then show ?thesis
      using Cons.prems by (intro Cons.IH [of "chunks @ [cur]" l]) auto
  next
    case False
    then have "foldl (chunk_step limit) (chunks, cur @ l) ls = (chunks', cur')"
      using Cons.prems(1) by (simp add: chunk_step_pair)
    then show ?thesis
      using Cons.prems False by (intro Cons.IH [of chunks "cur @ l"]) auto
  qed
qed

lemma foldl_chunk_step_inv:
  assumes "foldl (chunk_step limit) (chunks, cur) ls = (chunks', cur')"
    and "[] \<notin> set (tl chunks)" and "chunks \<noteq> [] \<longrightarrow> cur \<noteq> []"
    and "[] \<notin> set ls"
  shows "[] \<notin> set (tl chunks') \<and> (chunks' \<noteq> [] \<longrightarrow> cur' \<noteq> [])"
  using assms
proof (induction ls arbitrary: chunks cur)
  case Nil
  then show ?case by simp
next
  case (Cons l ls)
  show ?case
  proof (cases "int (length cur) + int (length l) > limit - 50")
    case True
    then have "foldl (chunk_step limit) (chunks @ [cur], l) ls = (chunks', cur')"
      using Cons.prems(1) by (simp add: chunk_step_pair)
    then show ?thesis
      using Cons.prems by (intro Cons.IH [of "chunks @ [cur]" l]) (auto simp: tl_append split: list.splits)
  next
    case False
    then have "foldl (chunk_step limit) (chunks, cur @ l) ls = (chunks', cur')"
      using Cons.prems(1) by (simp add: chunk_step_pair)
    then show ?thesis
      using Cons.prems by (intro Cons.IH [of chunks "cur @ l"]) auto
  qed
qed

lemma foldl_chunk_step_prefix:
  "foldl (chunk_step limit) (chunks, cur) ls = (chunks', cur') \<Longrightarrow> \<exists>more. chunks' = chunks @ more"
proof (induction ls arbitrary: chunks cur)
  case Nil
  then show ?case by simp
next
  case (Cons l ls)
  show ?case
  proof (cases "int (length cur) + int (length l) > limit - 50")
    case True
    then have "foldl (chunk_step limit) (chunks @ [cur], l) ls = (chunks', cur')"
      using Cons.prems(1) by (simp add: chunk_step_pair)
    from Cons.IH [OF this] show ?thesis by auto
  next
    case False
    then have "foldl (chunk_step limit) (chunks, cur @ l) ls = (chunks', cur')"
      using Cons.prems(1) by (simp add: chunk_step_pair)
    from Cons.IH [OF this] show ?thesis .
  qed
qed

lemma chunk_text_tail_nonempty: "[] \<notin> set (tl (chunk_text text limit))"
proof -
  obtain chunks cur where f: "foldl (chunk_step limit) ([], []) (splitlines text) = (chunks, cur)"
    by (cases "foldl (chunk_step limit) ([], []) (splitlines text)")
  have "[] \<notin> set (tl chunks) \<and> (chunks \<noteq> [] \<longrightarrow> cur \<noteq> [])"
    using foldl_chunk_step_inv [OF f] splitlines_nonempty by simp
  then show ?thesis
    by (auto simp: chunk_text_def f tl_append split: list.splits)
qed

lemma chunk_text_last_nonempty:
  "chunk_text text limit \<noteq> [] \<Longrightarrow> last (chunk_text text limit) \<noteq> []"
proof -
  assume ne: "chunk_text text limit \<noteq> []"
  obtain chunks cur where f: "foldl (chunk_step limit) ([], []) (splitlines text) = (chunks, cur)"
    by (cases "foldl (chunk_step limit) ([], []) (splitlines text)")
  have "chunks \<noteq> [] \<longrightarrow> cur \<noteq> []"
    using foldl_chunk_step_inv [OF f] splitlines_nonempty by simp
  with ne show ?thesis
    by (auto simp: chunk_text_def f split: if_splits)
qed

lemma chunk_text_first_empty:
  assumes "splitlines text = l # ls" and "int (length l) > limit - 50"
  shows "\<exists>rest. chunk_text text limit = [] # rest"
proof -
  obtain chunks cur where f: "foldl (chunk_step limit) ([[]], l) ls = (chunks, cur)"
    by (cases "foldl (chunk_step limit) ([[]], l) ls")
  from foldl_chunk_step_prefix [OF f] obtain more where m: "chunks = [[]] @ more" ..
  have "foldl (chunk_step limit) ([], []) (splitlines text) = (chunks, cur)"
    using assms f by (simp add: chunk_step_pair)
  then show ?thesis by (simp add: chunk_text_def m)
qed

lemma chunk_text_bound:
  assumes "50 \<le> limit" and "c \<in> set (chunk_text text limit)"
  shows "int (length c) \<le> limit - 50 \<or> c \<in> set (splitlines text)"
proof -
  obtain chunks cur where f: "foldl (chunk_step limit) ([], []) (splitlines text) = (chunks, cur)"
    by (cases "foldl (chunk_step limit) ([], []) (splitlines text)")
  have "(\<forall>c \<in> set chunks. int (length c) \<le> limit - 50 \<or> c \<in> set (splitlines text)) \<and>
         (int (length cur) \<le> limit - 50 \<or> cur \<in> set (splitlines text))"
    using assms(1) by (intro foldl_chunk_step_bound [OF f]) auto
  with assms(2) show ?thesis
    by (auto simp: chunk_text_def f split: if_splits)
qed

lemma chunk_text_long_line:
  assumes "\<forall>c \<in> set s. \<not> is_linebreak c" and "int (length s) > limit - 50"  and "s \<noteq> []"
  shows "chunk_text s limit = [[], s]"
  using assms by (simp add: chunk_text_def splitlines_def splitlines_from_no_break chunk_step_pair)


text \<open>
  C6, as the code has it. With the limit of 4096, every chunk is at most 4046 code points
  long or is one line of the text, left whole; and the last chunk is never empty.
\<close>

theorem chunk_text_bound_or_line:
  "(\<forall>c \<in> set (chunk_text text TELEGRAM_MSG_LIMIT).
      length c \<le> 4046 \<or> c \<in> set (splitlines text)) \<and>
   (chunk_text text TELEGRAM_MSG_LIMIT \<noteq> [] \<longrightarrow> last (chunk_text text TELEGRAM_MSG_LIMIT) \<noteq> [])"
proof (intro conjI ballI impI)
  fix c assume "c \<in> set (chunk_text text TELEGRAM_MSG_LIMIT)"
  then have "int (length c) \<le> TELEGRAM_MSG_LIMIT - 50 \<or> c \<in> set (splitlines text)"
    by (intro chunk_text_bound) (simp_all add: TELEGRAM_MSG_LIMIT_def)
  then show "length c \<le> 4046 \<or> c \<in> set (splitlines text)"
    by (auto simp: TELEGRAM_MSG_LIMIT_def)
next
  assume "chunk_text text TELEGRAM_MSG_LIMIT \<noteq> []"
  then show "last (chunk_text text TELEGRAM_MSG_LIMIT) \<noteq> []"
    by (rule chunk_text_last_nonempty)
qed

theorem chunk_text_bound_or_line_witness:
  "chunk_text (ascii ''ab\<newline>cd'') TELEGRAM_MSG_LIMIT = [ascii ''ab\<newline>cd''] \<and>
   length (ascii ''ab\<newline>cd'') \<le> 4046 \<and>
   last (chunk_text (ascii ''ab\<newline>cd'') TELEGRAM_MSG_LIMIT) \<noteq> []"
  using chunk_text_bound_or_line [of "ascii ''ab\<newline>cd''"]
  by (simp add: chunk_text_def splitlines_def chunk_step_pair is_linebreak_def ascii_def
      TELEGRAM_MSG_LIMIT_def)

text \<open>
  C6 as stated fails: a text that is one line of 4047 letters \<open>a\<close> comes back as an empty
  chunk and a chunk of 4047 code points.
\<close>

theorem chunk_text_bound_counterexample:
  "chunk_text (replicate 4047 97) TELEGRAM_MSG_LIMIT = [[], replicate 4047 97] \<and>
   \<not> length (replicate 4047 (97::cp)) \<le> 4046"
proof
  show "chunk_text (replicate 4047 97) TELEGRAM_MSG_LIMIT = [[], replicate 4047 97]"
    by (rule chunk_text_long_line) (auto simp: is_linebreak_def TELEGRAM_MSG_LIMIT_def)
  show "\<not> length (replicate 4047 (97::cp)) \<le> 4046"
    by simp
qed

lemma foldl_chunk_step_head:
  assumes "foldl (chunk_step limit) (chunks, cur) ls = (chunks', cur')"
    and "cur \<noteq> []" and "chunks \<noteq> [] \<longrightarrow> hd chunks \<noteq> []"
    and "[] \<notin> set ls"
  shows "cur' \<noteq> [] \<and> (chunks' \<noteq> [] \<longrightarrow> hd chunks' \<noteq> [])"
  using assms
proof (induction ls arbitrary: chunks cur)
  case Nil
  then show ?case by simp
next
  case (Cons l ls)
  show ?case
  proof (cases "int (length cur) + int (length l) > limit - 50")
    case True
    then have "foldl (chunk_step limit) (chunks @ [cur], l) ls = (chunks', cur')"
      using Cons.prems(1) by (simp add: chunk_step_pair)
    then show ?thesis
      using Cons.prems by (intro Cons.IH [of "chunks @ [cur]" l]) (auto simp: hd_append)
  next
    case False
    then have "foldl (chunk_step limit) (chunks, cur @ l) ls = (chunks', cur')"
      using Cons.prems(1) by (simp add: chunk_step_pair)
    then show ?thesis
      using Cons.prems by (intro Cons.IH [of chunks "cur @ l"]) auto
  qed
qed

lemma chunk_text_first_nonempty:
  assumes "splitlines text = l # ls" and "\<not> int (length l) > limit - 50"
  shows "chunk_text text limit \<noteq> [] \<and> hd (chunk_text text limit) \<noteq> []"
proof -
  have ne: "[] \<notin> set (l # ls)"
    using splitlines_nonempty [of "text"] assms(1) by simp
  obtain chunks cur where f: "foldl (chunk_step limit) ([], l) ls = (chunks, cur)"
    by (cases "foldl (chunk_step limit) ([], l) ls")
  have inv: "cur \<noteq> [] \<and> (chunks \<noteq> [] \<longrightarrow> hd chunks \<noteq> [])"
    using ne by (intro foldl_chunk_step_head [OF f]) auto
  have "foldl (chunk_step limit) ([], []) (splitlines text) = (chunks, cur)"
    using assms f by (simp add: chunk_step_pair)
  then have "chunk_text text limit = chunks @ [cur]"
    using inv by (simp add: chunk_text_def)
  with inv show ?thesis by (auto simp: hd_append)
qed

lemma chunk_text_no_lines: "splitlines text = [] \<Longrightarrow> chunk_text text limit = []"
  by (simp add: chunk_text_def)

text \<open>
  C10. No chunk after the first is empty. The first chunk is empty exactly when the text
  has a first line and that line is longer than the limit minus 50: on those texts and on
  no other. There is such a text for the limit of 4096.
\<close>

theorem chunk_text_empty_only_first:
  "[] \<notin> set (tl (chunk_text text limit)) \<and>
   (chunk_text text limit \<noteq> [] \<and> hd (chunk_text text limit) = [] \<longleftrightarrow>
      splitlines text \<noteq> [] \<and> int (length (hd (splitlines text))) > limit - 50) \<and>
   (\<exists>t. chunk_text t TELEGRAM_MSG_LIMIT \<noteq> [] \<and> hd (chunk_text t TELEGRAM_MSG_LIMIT) = [])"
proof (intro conjI)
  show "[] \<notin> set (tl (chunk_text text limit))"
    by (rule chunk_text_tail_nonempty)
next
  show "chunk_text text limit \<noteq> [] \<and> hd (chunk_text text limit) = [] \<longleftrightarrow>
      splitlines text \<noteq> [] \<and> int (length (hd (splitlines text))) > limit - 50"
  proof (cases "splitlines text")
    case Nil
    then show ?thesis by (simp add: chunk_text_no_lines)
  next
    case (Cons l ls)
    show ?thesis
    proof (cases "int (length l) > limit - 50")
      case True
      from chunk_text_first_empty [OF Cons True]
      obtain rest where "chunk_text text limit = [] # rest" ..
      with Cons True show ?thesis by simp
    next
      case False
      from chunk_text_first_nonempty [OF Cons False] Cons False
      show ?thesis by simp
    qed
  qed
next
  have "chunk_text (replicate 4047 97) TELEGRAM_MSG_LIMIT = [[], replicate 4047 97]"
    by (rule chunk_text_long_line) (auto simp: is_linebreak_def TELEGRAM_MSG_LIMIT_def)
  then have "chunk_text (replicate 4047 97) TELEGRAM_MSG_LIMIT \<noteq> [] \<and>
             hd (chunk_text (replicate 4047 97) TELEGRAM_MSG_LIMIT) = []"
    by simp
  then show "\<exists>t. chunk_text t TELEGRAM_MSG_LIMIT \<noteq> [] \<and> hd (chunk_text t TELEGRAM_MSG_LIMIT) = []"
    by blast
qed

theorem chunk_text_empty_only_first_witness:
  "splitlines (ascii ''abcdef\<newline>cd'') \<noteq> [] \<and>
   int (length (hd (splitlines (ascii ''abcdef\<newline>cd'')))) > 53 - 50 \<and>
   chunk_text (ascii ''abcdef\<newline>cd'') 53 = [[], ascii ''abcdef\<newline>'', ascii ''cd''] \<and>
   \<not> int (length (hd (splitlines (ascii ''hi'')))) > 53 - 50 \<and>
   chunk_text (ascii ''hi'') 53 = [ascii ''hi'']"
  using chunk_text_empty_only_first [of "ascii ''abcdef\<newline>cd''" 53]
    chunk_text_empty_only_first [of "ascii ''hi''" 53]
  by (simp add: chunk_text_def splitlines_def chunk_step_pair is_linebreak_def ascii_def)

section \<open>Properties of the key builder and of the deleted-account test\<close>

text \<open>
  C9. The deleted-account test does not read its identifier argument: with the same name,
  any two identifiers give the same answer.
\<close>

theorem is_deleted_account_ignores_id:
  "is_deleted_account E name id1 = is_deleted_account E name id2"
  by (simp add: is_deleted_account_def)

text \<open>
  C1. The key is \<^verbatim>\<open>id:\<close> and the identifier when there is one; else \<^verbatim>\<open>u:\<close> and the lowered
  username when there is one; else \<^verbatim>\<open>n:\<close>, the lowered first name, a bar and the lowered
  last name. So usernames that differ only in case give the same key, and so do any two
  inputs with the same non-empty identifier. The builder is a function defined on all
  inputs.
\<close>

theorem make_user_key_priority:
  "(user_id \<noteq> [] \<longrightarrow>
      make_user_key E user_id uname fn ln = ascii ''id:'' @ user_id) \<and>
   (user_id = [] \<and> uname \<noteq> [] \<longrightarrow>
      make_user_key E user_id uname fn ln = ascii ''u:'' @ py_lower E uname) \<and>
   (user_id = [] \<and> uname = [] \<longrightarrow>
      make_user_key E user_id uname fn ln =
        ascii ''n:'' @ py_lower E fn @ ascii ''|'' @ py_lower E ln) \<and>
   (same_ignoring_case E uname uname' \<longrightarrow>
      make_user_key E user_id uname fn ln = make_user_key E user_id uname' fn ln) \<and>
   (user_id \<noteq> [] \<longrightarrow>
      make_user_key E user_id uname fn ln = make_user_key E user_id uname' fn' ln')"
  by (simp add: make_user_key_def same_ignoring_case_def)

theorem make_user_key_priority_witness:
  "ascii ''42'' \<noteq> [] \<and>
   make_user_key sample_runtime (ascii ''42'') (ascii ''Bob'') (ascii ''Al'') (ascii ''Li'')
     = ascii ''id:'' @ ascii ''42'' \<and>
   same_ignoring_case sample_runtime (ascii ''Bob'') (ascii ''bOB'') \<and>
   make_user_key sample_runtime [] (ascii ''Bob'') (ascii ''Al'') (ascii ''Li'')
     = make_user_key sample_runtime [] (ascii ''bOB'') (ascii ''Al'') (ascii ''Li'') \<and>
   make_user_key sample_runtime [] (ascii ''Bob'') (ascii ''Al'') (ascii ''Li'')
     = ascii ''u:'' @ py_lower sample_runtime (ascii ''Bob'') \<and>
   py_lower sample_runtime (ascii ''Bob'') = ascii ''bob'' \<and>
   make_user_key sample_runtime [] [] (ascii ''Al'') (ascii ''Li'')
     = ascii ''n:'' @ py_lower sample_runtime (ascii ''Al'') @ ascii ''|''
       @ py_lower sample_runtime (ascii ''Li'') \<and>
   make_user_key sample_runtime (ascii ''42'') (ascii ''Bob'') (ascii ''Al'') (ascii ''Li'')
     = make_user_key sample_runtime (ascii ''42'') (ascii ''x'') (ascii ''y'') (ascii ''z'')"
proof -
  have a: "ascii ''42'' \<noteq> []" and b: "ascii ''Bob'' \<noteq> []"
    by (simp_all add: ascii_def)
  have c: "same_ignoring_case sample_runtime (ascii ''Bob'') (ascii ''bOB'')"
    by (simp add: same_ignoring_case_def py_lower_def lower_at_def ascii_def upt_conv_Cons)
  have l: "py_lower sample_runtime (ascii ''Bob'') = ascii ''bob''"
    by (simp add: py_lower_def lower_at_def ascii_def upt_conv_Cons)
  note t1 = make_user_key_priority [of "ascii ''42''" sample_runtime "ascii ''Bob''"
      "ascii ''Al''" "ascii ''Li''" "ascii ''x''" "ascii ''y''" "ascii ''z''"]
  note t2 = make_user_key_priority [of "[]" sample_runtime "ascii ''Bob''"
      "ascii ''Al''" "ascii ''Li''" "ascii ''bOB''"]
  note t3 = make_user_key_priority [of "[]" sample_runtime "[]" "ascii ''Al''" "ascii ''Li''"]
  from t1 a have k1:
    "make_user_key sample_runtime (ascii ''42'') (ascii ''Bob'') (ascii ''Al'') (ascii ''Li'')
       = ascii ''id:'' @ ascii ''42''"
    by blast
  from t1 a have k5:
    "make_user_key sample_runtime (ascii ''42'') (ascii ''Bob'') (ascii ''Al'') (ascii ''Li'')
       = make_user_key sample_runtime (ascii ''42'') (ascii ''x'') (ascii ''y'') (ascii ''z'')"
    by blast
  from t2 c have k2:
    "make_user_key sample_runtime [] (ascii ''Bob'') (ascii ''Al'') (ascii ''Li'')
       = make_user_key sample_runtime [] (ascii ''bOB'') (ascii ''Al'') (ascii ''Li'')"
    by blast
  from t2 b have k3:
    "make_user_key sample_runtime [] (ascii ''Bob'') (ascii ''Al'') (ascii ''Li'')
       = ascii ''u:'' @ py_lower sample_runtime (ascii ''Bob'')"
    by blast
  from t3 have k4:
    "make_user_key sample_runtime [] [] (ascii ''Al'') (ascii ''Li'')
       = ascii ''n:'' @ py_lower sample_runtime (ascii ''Al'') @ ascii ''|''
         @ py_lower sample_runtime (ascii ''Li'')"
    by blast
  from a k1 c k2 k3 l k4 k5 show ?thesis by (intro conjI)
qed

section \<open>Properties of the structured extractor\<close>

lemma extract_from_json_not_list:
  assumes "\<forall>ms. dict_get data (ascii ''messages'') \<noteq> JList ms"
  shows "extract_from_json E now data =
     (if safe_str E (dict_get data (ascii ''export_date'')) \<noteq> []
      then safe_str E (dict_get data (ascii ''export_date'')) else now, [], {})"
proof (cases "dict_get data (ascii ''messages'')")
  case (JList ms)
  with assms show ?thesis by blast
qed (simp_all add: extract_from_json_def Let_def)

text \<open>
  C8. A document without the key \<^verbatim>\<open>messages\<close>, or with a value there that is not a list,
  gives the export date (the stripped \<^verbatim>\<open>export_date\<close> of the document, or the clock when
  that is empty), no participant and no mention; nothing is raised.
\<close>

theorem extract_from_json_no_messages:
  "(map_of data (ascii ''messages'') = None \<or>
    (\<forall>ms. map_of data (ascii ''messages'') \<noteq> Some (JList ms))) \<longrightarrow>
   extract_from_json E now data =
     (if safe_str E (dict_get data (ascii ''export_date'')) \<noteq> []
      then safe_str E (dict_get data (ascii ''export_date'')) else now, [], {})"
proof
  assume "map_of data (ascii ''messages'') = None \<or>
    (\<forall>ms. map_of data (ascii ''messages'') \<noteq> Some (JList ms))"
  then have "\<forall>ms. dict_get data (ascii ''messages'') \<noteq> JList ms"
    by (auto simp: dict_get_def split: option.splits)
  then show "extract_from_json E now data =
     (if safe_str E (dict_get data (ascii ''export_date'')) \<noteq> []
      then safe_str E (dict_get data (ascii ''export_date'')) else now, [], {})"
    by (rule extract_from_json_not_list)
qed

theorem extract_from_json_no_messages_witness:
  "map_of [(ascii ''name'', JStr (ascii ''chat''))] (ascii ''messages'') = None \<and>
   extract_from_json sample_runtime (ascii ''now'') [(ascii ''name'', JStr (ascii ''chat''))]
     = (ascii ''now'', [], {}) \<and>
   map_of [(ascii ''export_date'', JStr (ascii '' 2024 '')), (ascii ''messages'', JInt 3)]
     (ascii ''messages'') = Some (JInt 3) \<and>
   extract_from_json sample_runtime (ascii ''now'')
     [(ascii ''export_date'', JStr (ascii '' 2024 '')), (ascii ''messages'', JInt 3)]
     = (ascii ''2024'', [], {})"
proof -
  have h1: "map_of [(ascii ''name'', JStr (ascii ''chat''))] (ascii ''messages'') = None"
    by (simp add: ascii_def)
  have h2: "map_of [(ascii ''export_date'', JStr (ascii '' 2024 '')), (ascii ''messages'', JInt 3)]
     (ascii ''messages'') = Some (JInt 3)"
    by (simp add: ascii_def)
  have d1: "safe_str sample_runtime
      (dict_get [(ascii ''name'', JStr (ascii ''chat''))] (ascii ''export_date'')) = []"
    by (simp add: safe_str_def dict_get_def ascii_def)
  have d2: "safe_str sample_runtime
      (dict_get [(ascii ''export_date'', JStr (ascii '' 2024 '')), (ascii ''messages'', JInt 3)]
         (ascii ''export_date'')) = ascii ''2024''"
    by (simp add: safe_str_def py_str_def dict_get_def strip_def is_space_def ascii_def)
  have n2: "ascii ''2024'' \<noteq> []"
    by (simp add: ascii_def)
  have g2: "\<forall>ms. map_of [(ascii ''export_date'', JStr (ascii '' 2024 '')),
      (ascii ''messages'', JInt 3)] (ascii ''messages'') \<noteq> Some (JList ms)"
    by (simp add: h2)
  from extract_from_json_no_messages
         [of "[(ascii ''name'', JStr (ascii ''chat''))]" sample_runtime "ascii ''now''"] h1
  have "extract_from_json sample_runtime (ascii ''now'') [(ascii ''name'', JStr (ascii ''chat''))]
     = (if safe_str sample_runtime
             (dict_get [(ascii ''name'', JStr (ascii ''chat''))] (ascii ''export_date'')) \<noteq> []
        then safe_str sample_runtime
             (dict_get [(ascii ''name'', JStr (ascii ''chat''))] (ascii ''export_date''))
        else ascii ''now'', [], {})"
    by blast
  then have e1:
    "extract_from_json sample_runtime (ascii ''now'') [(ascii ''name'', JStr (ascii ''chat''))]
       = (ascii ''now'', [], {})"
    by (simp only: d1 simp_thms if_False)
  from extract_from_json_no_messages
         [of "[(ascii ''export_date'', JStr (ascii '' 2024 '')), (ascii ''messages'', JInt 3)]"
            sample_runtime "ascii ''now''"] g2
  have "extract_from_json sample_runtime (ascii ''now'')
     [(ascii ''export_date'', JStr (ascii '' 2024 '')), (ascii ''messages'', JInt 3)]
     = (if safe_str sample_runtime
             (dict_get [(ascii ''export_date'', JStr (ascii '' 2024 '')),
                        (ascii ''messages'', JInt 3)] (ascii ''export_date'')) \<noteq> []
        then safe_str sample_runtime
             (dict_get [(ascii ''export_date'', JStr (ascii '' 2024 '')),
                        (ascii ''messages'', JInt 3)] (ascii ''export_date''))
        else ascii ''now'', [], {})"
    by blast
  then have e2: "extract_from_json sample_runtime (ascii ''now'')
     [(ascii ''export_date'', JStr (ascii '' 2024 '')), (ascii ''messages'', JInt 3)]
     = (ascii ''2024'', [], {})"
    by (simp only: d2 n2 simp_thms if_True)
  from h1 e1 h2 e2 show ?thesis by (intro conjI)
qed

lemma safe_str_JStr: "safe_str E (JStr s) = strip s"
  by (simp add: safe_str_def py_str_def)

lemma dropWhile_snoc_keep: "\<not> P c \<Longrightarrow> \<exists>w. dropWhile P (ys @ [c]) = w @ [c]"
  by (induction ys) auto

lemma dropWhile_strip: "dropWhile is_space (strip s) = strip s"
proof (cases "dropWhile is_space s")
  case Nil
  have "strip s = []" by (simp only: strip_def Nil rev.simps dropWhile.simps)
  then show ?thesis by simp
next
  case (Cons c t)
  have "\<not> is_space (hd (dropWhile is_space s))"
    by (rule hd_dropWhile) (simp add: Cons)
  then have c: "\<not> is_space c" by (simp add: Cons)
  from dropWhile_snoc_keep [of is_space c "rev t", OF c] obtain w where "dropWhile is_space (rev t @ [c]) = w @ [c]" ..
  then have "strip s = c # rev w" by (simp add: strip_def Cons)
  with c show ?thesis by simp
qed

lemma strip_idem: "strip (strip s) = strip s"
proof -
  have "strip (strip s) = rev (dropWhile is_space (rev (strip s)))"
    by (simp add: strip_def [of "strip s"] dropWhile_strip)
  also have "rev (strip s) = dropWhile is_space (rev (dropWhile is_space s))"
    by (simp add: strip_def)
  also have "rev (dropWhile is_space (dropWhile is_space (rev (dropWhile is_space s)))) = strip s"
    by (simp add: strip_def)
  finally show ?thesis .
qed

lemma strip_Nil: "strip [] = []"
  by (simp add: strip_def)

lemma strip_safe_str: "strip (safe_str E x) = safe_str E x"
  by (cases x) (simp_all add: safe_str_def strip_idem strip_Nil)

lemma split_from_nonempty:
  "cur \<noteq> [] \<or> (\<exists>c \<in> set s. \<not> is_space c) \<Longrightarrow> split_from cur s \<noteq> []"
  by (induction cur s rule: split_from.induct) auto

lemma split_ws_strip_nonempty:
  assumes "strip s \<noteq> []"
  shows "split_ws (strip s) \<noteq> []"
proof -
  have "dropWhile is_space (strip s) \<noteq> []"
    using assms by (simp add: dropWhile_strip)
  then have "\<exists>c \<in> set (strip s). \<not> is_space c"
    by (simp add: dropWhile_eq_Nil_conv)
  then show ?thesis
    unfolding split_ws_def by (intro split_from_nonempty) simp
qed

lemma is_deleted_account_heuristic:
  "is_deleted_account E name user_id = matches_deleted_heuristic E (strip name)"
  by (auto simp: is_deleted_account_def matches_deleted_heuristic_def safe_str_JStr Let_def)

lemma is_deleted_account_from_name:
  "is_deleted_account E (from_name_of E m) uid = matches_deleted_heuristic E (from_name_of E m)"
  by (simp add: is_deleted_account_heuristic from_name_of_def strip_safe_str)

text \<open>
  C2, as the code has it. A message whose resolved display name matches the
  deleted-account heuristic leaves the participants as they were: no record is created
  and none is updated. The resolved identifier is not tested.
\<close>

theorem deleted_name_not_recorded:
  "matches_deleted_heuristic E (from_name_of E m) \<longrightarrow>
     fst (process_message E date (parts, mentions) (JDict m)) = parts"
  by (simp add: process_message_def Let_def is_deleted_account_from_name)

lemmas eval_message = process_message_def message_mentions_def from_name_of_def from_id_of_def
  username_of_def names_of_def split_name_def split_ws_def safe_str_def py_str_def py_or_def
  dict_get_def strip_def is_space_def is_deleted_account_def make_user_key_def py_lower_def
  lower_at_def ascii_def upt_conv_Cons Let_def deleted_ru_def account_ru_def
  matches_deleted_heuristic_def

theorem deleted_name_not_recorded_witness:
  "matches_deleted_heuristic sample_runtime
     (from_name_of sample_runtime
        [(ascii ''from'', JStr (ascii ''Deleted Account'')),
         (ascii ''from_id'', JStr (ascii ''user7''))]) \<and>
   fst (process_message sample_runtime (ascii ''d'') ([], {})
          (JDict [(ascii ''from'', JStr (ascii ''Deleted Account'')),
                  (ascii ''from_id'', JStr (ascii ''user7''))])) = [] \<and>
   matches_deleted_heuristic sample_runtime
     (from_name_of sample_runtime
        [(ascii ''from'',
          JStr [1059, 1076, 1072, 1083, 1105, 1085, 1085, 1099, 1081, 32,
                1040, 1082, 1082, 1072, 1091, 1085, 1090])]) \<and>
   fst (process_message sample_runtime (ascii ''d'') ([], {})
          (JDict [(ascii ''from'',
                   JStr [1059, 1076, 1072, 1083, 1105, 1085, 1085, 1099, 1081, 32,
                         1040, 1082, 1082, 1072, 1091, 1085, 1090])])) = []"
proof -
  have h: "matches_deleted_heuristic sample_runtime
     (from_name_of sample_runtime
        [(ascii ''from'', JStr (ascii ''Deleted Account'')),
         (ascii ''from_id'', JStr (ascii ''user7''))])"
    by (simp add: eval_message)
  have r: "matches_deleted_heuristic sample_runtime
     (from_name_of sample_runtime
        [(ascii ''from'',
          JStr [1059, 1076, 1072, 1083, 1105, 1085, 1085, 1099, 1081, 32,
                1040, 1082, 1082, 1072, 1091, 1085, 1090])])"
    by (simp add: eval_message sample_runtime_def)
  from deleted_name_not_recorded
         [of sample_runtime
            "[(ascii ''from'', JStr (ascii ''Deleted Account'')),
              (ascii ''from_id'', JStr (ascii ''user7''))]" "ascii ''d''" "[]" "{}"] h
  have e: "fst (process_message sample_runtime (ascii ''d'') ([], {})
          (JDict [(ascii ''from'', JStr (ascii ''Deleted Account'')),
                  (ascii ''from_id'', JStr (ascii ''user7''))])) = []"
    by blast
  from deleted_name_not_recorded
         [of sample_runtime
            "[(ascii ''from'',
               JStr [1059, 1076, 1072, 1083, 1105, 1085, 1085, 1099, 1081, 32,
                     1040, 1082, 1082, 1072, 1091, 1085, 1090])]" "ascii ''d''" "[]" "{}"] r
  have f: "fst (process_message sample_runtime (ascii ''d'') ([], {})
          (JDict [(ascii ''from'',
                   JStr [1059, 1076, 1072, 1083, 1105, 1085, 1085, 1099, 1081, 32,
                         1040, 1082, 1082, 1072, 1091, 1085, 1090])])) = []"
    by blast
  from h e r f show ?thesis by (intro conjI)
qed

text \<open>
  C2 as stated fails on the identifier: a message from \<^verbatim>\<open>Bob\<close> whose identifier is the
  string \<^verbatim>\<open>deleted\<close> matches the heuristic on its identifier, and is recorded under the
  key \<^verbatim>\<open>id:deleted\<close>.
\<close>

theorem deleted_id_recorded_counterexample:
  "matches_deleted_heuristic sample_runtime
     (from_id_of sample_runtime
        [(ascii ''from'', JStr (ascii ''Bob'')), (ascii ''from_id'', JStr (ascii ''deleted''))]) \<and>
   fst (process_message sample_runtime (ascii ''d'') ([], {})
          (JDict [(ascii ''from'', JStr (ascii ''Bob'')),
                  (ascii ''from_id'', JStr (ascii ''deleted''))]))
     = [(ascii ''id:deleted'',
         \<lparr>export_date = ascii ''d'', username = [], first_name = ascii ''Bob'', last_name = [],
          bio = ascii ''N/A''\<rparr>)]"
  by (simp add: eval_message)

section \<open>Properties of the merge and of the presentation\<close>




text \<open>
  The participant map that the structured extractor returns has distinct keys, as a dict
  has.
\<close>

lemma keys_dict_set:
  "map fst (dict_set d k v) = (if k \<in> set (map fst d) then map fst d else map fst d @ [k])"
  by (induction d k v rule: dict_set.induct) auto

lemma distinct_dict_set:
  "distinct (map fst d) \<Longrightarrow> distinct (map fst (dict_set d k v))"
  by (simp add: keys_dict_set)

lemma distinct_process_message:
  "distinct (map fst (fst st)) \<Longrightarrow> distinct (map fst (fst (process_message E date st msg)))"
  by (cases st; cases msg) (simp_all add: process_message_def Let_def distinct_dict_set)

lemma distinct_foldl_process_message:
  "distinct (map fst (fst st)) \<Longrightarrow>
     distinct (map fst (fst (foldl (process_message E date) st msgs)))"
  by (induction msgs arbitrary: st) (simp_all add: distinct_process_message)

lemma distinct_extract_from_json:
  "distinct (map fst (fst (snd (extract_from_json E now data))))"
proof (cases "dict_get data (ascii ''messages'')")
  case (JList ms)
  have "distinct (map fst (fst (foldl (process_message E d) ([], {}) ms)))" for d
    by (rule distinct_foldl_process_message) simp
  then show ?thesis
    by (simp add: extract_from_json_def Let_def JList split: prod.splits)
qed (simp_all add: extract_from_json_def Let_def)



text \<open>
  C5, as the code has it. With 1 to 49 participants the replies are the summary and the
  chunks of the inline list; with 50 or more they are the summary and one document, the
  sheet whose first row is \<^verbatim>\<open>export_date, username, first_name, last_name, bio\<close> and
  whose other rows are the sorted participants, in these columns. With no participant
  the only reply is the notice that none was found.
\<close>

theorem present_threshold:
  "(0 < length (all_participants agg) \<and> length (all_participants agg) < 50 \<longrightarrow>
      present E agg =
        ReplyText (summary_text agg)
        # map ReplyText
            (chunk_text (inline_text E (sort_rows E (map snd (all_participants agg))))
               TELEGRAM_MSG_LIMIT)) \<and>
   (50 \<le> length (all_participants agg) \<longrightarrow>
      present E agg =
        [ReplyText (summary_text agg),
         ReplyDocument
           \<lparr>title = ascii ''users'',
            cells =
              [ascii ''export_date'', ascii ''username'', ascii ''first_name'',
               ascii ''last_name'', ascii ''bio'']
              # map (\<lambda>r. [export_date r, username r, first_name r, last_name r, bio r])
                  (sort_rows E (map snd (all_participants agg)))\<rparr>
           (ascii ''users.xlsx'') xlsx_caption]) \<and>
   (length (all_participants agg) = 0 \<longrightarrow> present E agg = [ReplyText (not_found_text agg)])"
  by (simp add: present_def LIST_THRESHOLD_def build_excel_bytes_def Let_def)

theorem present_threshold_witness:
  "0 < length (all_participants one_participant) \<and>
   length (all_participants one_participant) < 50 \<and>
   present sample_runtime one_participant =
     [ReplyText (summary_text one_participant),
      ReplyText (list_header @ ascii ''\<newline>1. @bob'')] \<and>
   50 \<le> length (all_participants fifty_participants) \<and>
   present sample_runtime fifty_participants =
     [ReplyText (summary_text fifty_participants),
      ReplyDocument
        \<lparr>title = ascii ''users'',
         cells =
           [ascii ''export_date'', ascii ''username'', ascii ''first_name'',
            ascii ''last_name'', ascii ''bio'']
           # map (\<lambda>r. [export_date r, username r, first_name r, last_name r, bio r])
               (sort_rows sample_runtime (map snd (all_participants fifty_participants)))\<rparr>
        (ascii ''users.xlsx'') xlsx_caption] \<and>
   length (all_participants no_participants) = 0 \<and>
   present sample_runtime no_participants = [ReplyText (not_found_text no_participants)]"
proof -
  have a: "0 < length (all_participants one_participant)"
    and b: "length (all_participants one_participant) < 50"
    by (simp_all add: one_participant_def)
  have c: "50 \<le> length (all_participants fifty_participants)"
    by (simp add: fifty_participants_def)
  have z: "length (all_participants no_participants) = 0"
    by (simp add: no_participants_def merge_def merge_step_def dict_update_def)
  have i: "inline_text sample_runtime
             (sort_rows sample_runtime (map snd (all_participants one_participant)))
           = list_header @ ascii ''\<newline>1. @bob''"
    by (simp add: one_participant_def sort_rows_def inline_text_def with_username_def
        no_username_def safe_str_def py_str_def strip_def is_space_def ascii_def
        enumerate_eq_zip)
  have j: "chunk_text (list_header @ ascii ''\<newline>1. @bob'') TELEGRAM_MSG_LIMIT
           = [list_header @ ascii ''\<newline>1. @bob'']"
    by (simp add: chunk_text_def splitlines_def is_linebreak_def chunk_step_pair
        list_header_def ascii_def TELEGRAM_MSG_LIMIT_def)
  from present_threshold [of one_participant sample_runtime] a b
  have "present sample_runtime one_participant =
        ReplyText (summary_text one_participant)
        # map ReplyText
            (chunk_text (inline_text sample_runtime
               (sort_rows sample_runtime (map snd (all_participants one_participant))))
               TELEGRAM_MSG_LIMIT)"
    by blast
  then have p1: "present sample_runtime one_participant =
     [ReplyText (summary_text one_participant),
      ReplyText (list_header @ ascii ''\<newline>1. @bob'')]"
    by (simp only: i j list.map)
  from present_threshold [of fifty_participants sample_runtime] c
  have p50: "present sample_runtime fifty_participants =
     [ReplyText (summary_text fifty_participants),
      ReplyDocument
        \<lparr>title = ascii ''users'',
         cells =
           [ascii ''export_date'', ascii ''username'', ascii ''first_name'',
            ascii ''last_name'', ascii ''bio'']
           # map (\<lambda>r. [export_date r, username r, first_name r, last_name r, bio r])
               (sort_rows sample_runtime (map snd (all_participants fifty_participants)))\<rparr>
        (ascii ''users.xlsx'') xlsx_caption]"
    by blast
  from present_threshold [of no_participants sample_runtime] z
  have p0: "present sample_runtime no_participants = [ReplyText (not_found_text no_participants)]"
    by blast
  from a b p1 c p50 z p0 show ?thesis by (intro conjI)
qed

text \<open>
  C5 as stated fails below 50 at zero: the aggregate of one file without messages has no
  participant, and the reply is the notice that none was found, which is not the summary
  followed by the inline list.
\<close>

theorem present_threshold_counterexample:
  "length (all_participants no_participants) < 50 \<and>
   present sample_runtime no_participants = [ReplyText (not_found_text no_participants)] \<and>
   present sample_runtime no_participants \<noteq>
     ReplyText (summary_text no_participants)
     # map ReplyText
         (chunk_text (inline_text sample_runtime
            (sort_rows sample_runtime (map snd (all_participants no_participants))))
            TELEGRAM_MSG_LIMIT)"
proof -
  have z: "all_participants no_participants = []"
    by (simp add: no_participants_def merge_def merge_step_def dict_update_def)
  have p: "present sample_runtime no_participants = [ReplyText (not_found_text no_participants)]"
    by (simp add: present_def z)
  have n: "not_found_text no_participants \<noteq> summary_text no_participants"
    by (simp add: not_found_text_def summary_text_def msg_none_1_def msg_done_1_def)
  from z p n show ?thesis by simp
qed

section \<open>Properties of the mention scanner\<close>

lemma mention_group_take: "mention_group s = take (length (mention_group s)) s"
proof -
  have "mention_group s = take (length (mention_group s)) (take 32 s)"
    unfolding mention_group_def by (rule takeWhile_eq_take)
  moreover have "length (mention_group s) \<le> 32"
    unfolding mention_group_def
    by (rule order_trans [OF length_takeWhile_le]) simp
  ultimately show ?thesis by (simp add: min_def)
qed

lemma mention_group_split: "s = mention_group s @ drop (length (mention_group s)) s"
  using mention_group_take [of s] append_take_drop_id [of "length (mention_group s)" s] by simp

lemma mention_group_chars: "c \<in> set (mention_group s) \<Longrightarrow> is_mention_char c"
  unfolding mention_group_def by (rule set_takeWhileD [THEN conjunct2])

lemma at_not_mention_char: "\<not> is_mention_char 64"
  by (simp add: is_mention_char_def)

lemma mention_char_is_word: "is_mention_char c \<Longrightarrow> is_word E c"
  by (auto simp: is_word_def is_mention_char_def)

lemma at_behind_group:
  assumes "s = pre @ 64 # post"
  shows "\<exists>pre'. pre = mention_group s @ pre' \<and> drop (length (mention_group s)) s = pre' @ 64 # post"
proof -
  let ?g = "mention_group s"
  have le: "length ?g \<le> length pre"
  proof (rule ccontr)
    assume "\<not> length ?g \<le> length pre"
    then have lt: "length pre < length ?g" by simp
    have "?g ! length pre = s ! length pre"
      using mention_group_take [of s] lt by (metis nth_take)
    also have "\<dots> = 64" using assms by simp
    finally have "64 \<in> set ?g" using lt by (metis nth_mem)
    then show False using mention_group_chars at_not_mention_char by blast
  qed
  have "?g = take (length ?g) pre"
    using mention_group_take [of s] assms le by simp
  then have "pre = ?g @ drop (length ?g) pre"
    by (metis append_take_drop_id)
  moreover have "drop (length ?g) s = drop (length ?g) pre @ 64 # post"
    using assms le by simp
  ultimately show ?thesis by blast
qed


lemma group_nonempty_last_word:
  assumes "5 \<le> length (mention_group s)"
  shows "is_word E (last (mention_group s))"
proof -
  from assms have "mention_group s \<noteq> []" by auto
  then have "last (mention_group s) \<in> set (mention_group s)" by (rule last_in_set)
  then show ?thesis using mention_group_chars mention_char_is_word by blast
qed

lemma finditer_from_iff:
  "x \<in> set (finditer_from E prev s) \<longleftrightarrow>
     (\<exists>pre post. s = pre @ 64 # post \<and> lookbehind_ok E (prev_of prev pre) \<and>
        5 \<le> length (mention_group post) \<and> x = mention_group post)"
proof (induction E prev s rule: finditer_from.induct)
  case (1 E prev)
  show ?case by simp
next
  case (2 E prev c s)
  let ?g = "mention_group s"
  let ?R = "\<lambda>prev s. \<exists>pre post. s = pre @ 64 # post \<and> lookbehind_ok E (prev_of prev pre) \<and>
        5 \<le> length (mention_group post) \<and> x = mention_group post"
  show ?case
  proof (cases "c = 64 \<and> lookbehind_ok E prev \<and> 5 \<le> length ?g")
    case True
    then have c: "c = 64" and ok: "lookbehind_ok E prev" and len: "5 \<le> length ?g"
      by simp_all
    have fi: "finditer_from E prev (c # s) =
        ?g # finditer_from E (Some (last ?g)) (drop (length ?g) s)"
      using True by (simp add: lookbehind_ok_def)
    have IH: "x \<in> set (finditer_from E (Some (last ?g)) (drop (length ?g) s)) \<longleftrightarrow>
        ?R (Some (last ?g)) (drop (length ?g) s)"
      using True by (intro "2.IH"(1)) (simp add: lookbehind_ok_def)
    have w: "is_word E (last ?g)" using len by (rule group_nonempty_last_word)
    have gne: "?g \<noteq> []" using len by auto
    show ?thesis
    proof
      assume "x \<in> set (finditer_from E prev (c # s))"
      then consider "x = ?g" | "x \<in> set (finditer_from E (Some (last ?g)) (drop (length ?g) s))"
        using fi by auto
      then show "?R prev (c # s)"
      proof cases
        case 1
        have "c # s = [] @ 64 # s" using c by simp
        moreover have "lookbehind_ok E (prev_of prev [])" using ok by (simp add: prev_of_def)
        ultimately show ?thesis using len 1 by blast
      next
        case 2
        with IH obtain pre post where d: "drop (length ?g) s = pre @ 64 # post"
          and l: "lookbehind_ok E (prev_of (Some (last ?g)) pre)"
          and p: "5 \<le> length (mention_group post)" "x = mention_group post"
          by blast
        have pne: "pre \<noteq> []"
        proof
          assume "pre = []"
          with l have "\<not> is_word E (last ?g)" by (simp add: prev_of_def lookbehind_ok_def)
          with w show False by simp
        qed
        have "s = ?g @ pre @ 64 # post"
          using mention_group_split [of s] d by simp
        then have "c # s = (64 # ?g @ pre) @ 64 # post" using c by simp
        moreover have "lookbehind_ok E (prev_of prev (64 # ?g @ pre))"
          using l pne by (simp add: prev_of_def)
        ultimately show ?thesis using p by blast
      qed
    next
      assume "?R prev (c # s)"
      then obtain pre post where d: "c # s = pre @ 64 # post"
        and l: "lookbehind_ok E (prev_of prev pre)"
        and p: "5 \<le> length (mention_group post)" "x = mention_group post"
        by blast
      show "x \<in> set (finditer_from E prev (c # s))"
      proof (cases pre)
        case Nil
        with d have "post = s" by simp
        with p fi show ?thesis by simp
      next
        case (Cons a pre1)
        with d have s: "s = pre1 @ 64 # post" by simp
        from at_behind_group [OF s] obtain pre2 where
          p2: "pre1 = ?g @ pre2" and d2: "drop (length ?g) s = pre2 @ 64 # post"
          by blast
        have ne2: "pre2 \<noteq> []"
        proof
          assume "pre2 = []"
          with p2 Cons gne have "last pre = last ?g" by simp
          with l Cons have "\<not> is_word E (last ?g)" by (simp add: prev_of_def lookbehind_ok_def)
          with w show False by simp
        qed
        have "last pre = last pre2" using Cons p2 ne2 by simp
        then have "lookbehind_ok E (prev_of (Some (last ?g)) pre2)"
          using l Cons ne2 by (simp add: prev_of_def)
        with d2 p have "?R (Some (last ?g)) (drop (length ?g) s)" by blast
        with IH fi show ?thesis by simp
      qed
    qed
  next
    case False
    have fi: "finditer_from E prev (c # s) = finditer_from E (Some c) s"
      using False by (auto simp: lookbehind_ok_def)
    have IH: "x \<in> set (finditer_from E (Some c) s) \<longleftrightarrow> ?R (Some c) s"
      using False by (intro "2.IH"(2)) (simp add: lookbehind_ok_def)
    show ?thesis
    proof
      assume "x \<in> set (finditer_from E prev (c # s))"
      with fi IH obtain pre post where d: "s = pre @ 64 # post"
        and l: "lookbehind_ok E (prev_of (Some c) pre)"
        and p: "5 \<le> length (mention_group post)" "x = mention_group post"
        by auto
      have "c # s = (c # pre) @ 64 # post" using d by simp
      moreover have "lookbehind_ok E (prev_of prev (c # pre))"
        using l by (cases pre) (simp_all add: prev_of_def)
      ultimately show "?R prev (c # s)" using p by blast
    next
      assume "?R prev (c # s)"
      then obtain pre post where d: "c # s = pre @ 64 # post"
        and l: "lookbehind_ok E (prev_of prev pre)"
        and p: "5 \<le> length (mention_group post)" "x = mention_group post"
        by blast
      show "x \<in> set (finditer_from E prev (c # s))"
      proof (cases pre)
        case Nil
        with d have "c = 64" and "post = s" by simp_all
        moreover have "lookbehind_ok E prev" using l Nil by (simp add: prev_of_def)
        ultimately have "c = 64 \<and> lookbehind_ok E prev \<and> 5 \<le> length ?g"
          using p by simp
        with False show ?thesis by blast
      next
        case (Cons a pre1)
        with d have s: "s = pre1 @ 64 # post" and a: "a = c" by simp_all
        have "lookbehind_ok E (prev_of (Some c) pre1)"
          using l Cons a by (cases pre1) (simp_all add: prev_of_def)
        with s p have "?R (Some c) s" by blast
        with IH fi show ?thesis by simp
      qed
    qed
  qed
qed


text \<open>
  C3, as the code has it. The scanner is a function defined on every text, and on no text
  (read as the empty text, which has no mention). Its result is a set: the lowered groups
  of the places where an \<^verbatim>\<open>@\<close> is not preceded by a word character and the longest run of
  class characters behind it, cut after 32, has at least 5 characters. The group of such a
  place is that whole run, not each of its prefixes of 5 or more characters.
\<close>

theorem extract_mentions_longest_groups:
  "extract_mentions_from_text E text =
     {py_lower E (mention_group post) | pre post.
        (case text of None \<Rightarrow> [] | Some t \<Rightarrow> t) = pre @ 64 # post \<and>
        (pre = [] \<or> \<not> is_word E (last pre)) \<and>
        5 \<le> length (mention_group post)} \<and>
   extract_mentions_from_text E None = {}"
proof -
  define t where "t = (case text of None \<Rightarrow> [] | Some t \<Rightarrow> t)"
  have ok: "lookbehind_ok E (prev_of None pre) \<longleftrightarrow> pre = [] \<or> \<not> is_word E (last pre)" for pre
    by (simp add: prev_of_def lookbehind_ok_def)
  have eq: "set (finditer_from E None t) =
     {mention_group post | pre post. t = pre @ 64 # post \<and>
        (pre = [] \<or> \<not> is_word E (last pre)) \<and> 5 \<le> length (mention_group post)}"
  proof (rule set_eqI)
    fix x
    show "x \<in> set (finditer_from E None t) \<longleftrightarrow>
      x \<in> {mention_group post | pre post. t = pre @ 64 # post \<and>
        (pre = [] \<or> \<not> is_word E (last pre)) \<and> 5 \<le> length (mention_group post)}"
      unfolding finditer_from_iff ok by blast
  qed
  have "py_lower E ` set (finditer_from E None t) =
     {py_lower E (mention_group post) | pre post. t = pre @ 64 # post \<and>
        (pre = [] \<or> \<not> is_word E (last pre)) \<and> 5 \<le> length (mention_group post)}"
    unfolding eq by blast
  then show ?thesis
    by (simp add: extract_mentions_from_text_def t_def)
qed


theorem extract_mentions_longest_groups_witness:
  "\<not> is_word sample_runtime (last (ascii ''hi '')) \<and>
   5 \<le> length (mention_group (ascii ''Abcdef!'')) \<and>
   py_lower sample_runtime (mention_group (ascii ''Abcdef!'')) = ascii ''abcdef'' \<and>
   ascii ''abcdef'' \<in> extract_mentions_from_text sample_runtime (Some (ascii ''hi @Abcdef!''))"
proof -
  have w: "\<not> is_word sample_runtime (last (ascii ''hi ''))"
    by (simp add: is_word_def is_mention_char_def ascii_def)
  have g: "mention_group (ascii ''Abcdef!'') = ascii ''Abcdef''"
    by (simp add: mention_group_def is_mention_char_def ascii_def)
  have n: "5 \<le> length (mention_group (ascii ''Abcdef!''))"
    by (simp add: g) (simp add: ascii_def)
  have l: "py_lower sample_runtime (mention_group (ascii ''Abcdef!'')) = ascii ''abcdef''"
    by (simp add: g) (simp add: py_lower_def lower_at_def ascii_def upt_conv_Cons)
  have t: "(case Some (ascii ''hi @Abcdef!'') of None \<Rightarrow> [] | Some t \<Rightarrow> t)
             = ascii ''hi '' @ 64 # ascii ''Abcdef!''"
    by (simp add: ascii_def)
  have "py_lower sample_runtime (mention_group (ascii ''Abcdef!''))
          \<in> extract_mentions_from_text sample_runtime (Some (ascii ''hi @Abcdef!''))"
    using extract_mentions_longest_groups [of sample_runtime "Some (ascii ''hi @Abcdef!'')"]
      t w n by blast
  with w n l show ?thesis by simp
qed

text \<open>
  C3 as stated fails: in the text \<^verbatim>\<open>@abcdef\<close> the token \<^verbatim>\<open>abcde\<close> of 5 class characters
  stands behind an \<^verbatim>\<open>@\<close> at the start of the text, but the scanner returns \<^verbatim>\<open>abcdef\<close> only.
\<close>

theorem extract_mentions_counterexample:
  "ascii ''abcde'' \<in> mentions_as_specified sample_runtime (ascii ''@abcdef'') \<and>
   extract_mentions_from_text sample_runtime (Some (ascii ''@abcdef'')) = {ascii ''abcdef''} \<and>
   ascii ''abcde'' \<notin> extract_mentions_from_text sample_runtime (Some (ascii ''@abcdef''))"
proof -
  have l: "py_lower sample_runtime (ascii ''abcde'') = ascii ''abcde''"
    by (simp add: py_lower_def lower_at_def ascii_def upt_conv_Cons)
  have "ascii ''@abcdef'' = [] @ 64 # ascii ''abcde'' @ ascii ''f''"
    and "5 \<le> length (ascii ''abcde'')" and "length (ascii ''abcde'') \<le> 32"
    and "list_all is_mention_char (ascii ''abcde'')"
    by (simp_all add: ascii_def is_mention_char_def)
  then have "py_lower sample_runtime (ascii ''abcde'')
               \<in> mentions_as_specified sample_runtime (ascii ''@abcdef'')"
    unfolding mentions_as_specified_def by blast
  then have a: "ascii ''abcde'' \<in> mentions_as_specified sample_runtime (ascii ''@abcdef'')"
    by (simp only: l)
  have b: "extract_mentions_from_text sample_runtime (Some (ascii ''@abcdef''))
             = {ascii ''abcdef''}"
    by (simp add: extract_mentions_from_text_def mention_group_def is_mention_char_def
        is_word_def ascii_def py_lower_def lower_at_def upt_conv_Cons)
  have c: "ascii ''abcde'' \<noteq> ascii ''abcdef''"
    by (simp add: ascii_def)
  from a b c show ?thesis by simp
qed

end
